theory Spec2Isabelle
  imports Complex_Main "HOL-Library.Sublist"
begin

section \<open>The FileUpload component of \<^verbatim>\<open>src/file-upload.tsx\<close>\<close>

text \<open>
  The component keeps two pieces of React state, \<^verbatim>\<open>files\<close> and \<^verbatim>\<open>isDragOver\<close>, and
  talks to the browser through \<^verbatim>\<open>Math.random\<close>, \<^verbatim>\<open>URL.createObjectURL\<close> and
  \<^verbatim>\<open>URL.revokeObjectURL\<close>. The embedding passes the state explicitly and records
  every browser call in the state, so that the number and the arguments of the
  release calls can be read off afterwards.
\<close>

subsection \<open>Data\<close>

text \<open>
  The DOM's \<^verbatim>\<open>File\<close>: only \<^verbatim>\<open>name\<close>, \<^verbatim>\<open>size\<close> and \<^verbatim>\<open>type\<close> are read by the
  component. \<^verbatim>\<open>size\<close> is an unsigned integer (a byte count).
\<close>

record File =
  fileName :: string
  fileSize :: nat
  fileType :: string

text \<open>
  \<^verbatim>\<open>interface FileWithId { id: string; file: File; previewUrl?: string }\<close>.
  The fields \<^verbatim>\<open>id\<close> and \<^verbatim>\<open>file\<close> are written \<open>id'\<close> and \<open>file'\<close>: \<open>id\<close> is HOL's
  identity function and \<^verbatim>\<open>file\<close> is a keyword of the theory language.
\<close>

record FileWithId =
  id' :: string
  file' :: File
  previewUrl :: "string option"

text \<open>
  The browser, as far as the component can observe it: \<open>randomId k\<close> is what the
  \<open>k\<close>-th evaluation of \<^verbatim>\<open>Math.random().toString(36).substr(2, 9)\<close> yields, and
  \<open>objectURL k\<close> is the string the \<open>k\<close>-th call of \<^verbatim>\<open>URL.createObjectURL\<close> returns
  (both counted from 0). Nothing is assumed about either.
\<close>

record browser =
  randomId :: "nat \<Rightarrow> string"
  objectURL :: "nat \<Rightarrow> string"

text \<open>
  The state: the two \<^verbatim>\<open>useState\<close> cells, and the trace of browser calls made so far
  (\<open>randomCalls\<close> counts the calls of \<^verbatim>\<open>generateId\<close>, \<open>created\<close> lists the results of
  \<^verbatim>\<open>URL.createObjectURL\<close> and \<open>revoked\<close> the arguments of \<^verbatim>\<open>URL.revokeObjectURL\<close>,
  both in call order).
\<close>

record state =
  files :: "FileWithId list"
  isDragOver :: bool
  randomCalls :: nat
  created :: "string list"
  revoked :: "string list"

definition initialState :: state where
  "initialState =
     \<lparr>files = [], isDragOver = False, randomCalls = 0, created = [], revoked = []\<rparr>"

subsection \<open>Selecting files\<close>

text \<open>\<^verbatim>\<open>String.prototype.startsWith\<close> (with one argument).\<close>

definition startsWith :: "string \<Rightarrow> string \<Rightarrow> bool" where
  "startsWith s p = (take (length p) s = p)"

text \<open>\<^verbatim>\<open>const generateId = () => Math.random().toString(36).substr(2, 9)\<close>\<close>

definition generateId :: "browser \<Rightarrow> state \<Rightarrow> string \<times> state" where
  "generateId env s =
     (randomId env (randomCalls s), s\<lparr>randomCalls := Suc (randomCalls s)\<rparr>)"

text \<open>\<^verbatim>\<open>URL.createObjectURL(file)\<close>: a new URL, logged.\<close>

definition createObjectURL :: "browser \<Rightarrow> File \<Rightarrow> state \<Rightarrow> string \<times> state" where
  "createObjectURL env f s =
     (let u = objectURL env (length (created s)) in (u, s\<lparr>created := created s @ [u]\<rparr>))"

text \<open>\<^verbatim>\<open>URL.revokeObjectURL(url)\<close>: logged.\<close>

definition revokeObjectURL :: "string \<Rightarrow> state \<Rightarrow> state" where
  "revokeObjectURL u s = s\<lparr>revoked := revoked s @ [u]\<rparr>"

text \<open>
  The callback of \<^verbatim>\<open>Array.from(selectedFiles).map\<close> in \<^verbatim>\<open>handleFileSelect\<close>:
  \<^verbatim>\<open>
  (file) => {
    const fileWithId: FileWithId = { id: generateId(), file }
    if (file.type.startsWith("image/")) {
      fileWithId.previewUrl = URL.createObjectURL(file)
    }
    return fileWithId
  }
  \<close>
\<close>

definition newFile :: "browser \<Rightarrow> File \<Rightarrow> state \<Rightarrow> FileWithId \<times> state" where
  "newFile env f s =
     (let (i, s1) = generateId env s;
          fileWithId = \<lparr>id' = i, file' = f, previewUrl = None\<rparr>
      in if startsWith (fileType f) ''image/''
         then (let (u, s2) = createObjectURL env f s1
               in (fileWithId\<lparr>previewUrl := Some u\<rparr>, s2))
         else (fileWithId, s1))"

text \<open>The \<^verbatim>\<open>map\<close> itself, left to right over the batch.\<close>

fun newFiles :: "browser \<Rightarrow> File list \<Rightarrow> state \<Rightarrow> FileWithId list \<times> state" where
  "newFiles env [] s = ([], s)"
| "newFiles env (f # fs) s =
     (let (r, s1) = newFile env f s;
          (rs, s2) = newFiles env fs s1
      in (r # rs, s2))"

text \<open>
  \<^verbatim>\<open>
  const handleFileSelect = (selectedFiles: FileList | null) => {
    if (!selectedFiles) return
    const newFiles = Array.from(selectedFiles).map(...)
    setFiles((prev) => [...prev, ...newFiles])
  }
  \<close>
  \<^verbatim>\<open>FileList | null\<close> is \<open>File list option\<close>.
\<close>

definition handleFileSelect :: "browser \<Rightarrow> File list option \<Rightarrow> state \<Rightarrow> state" where
  "handleFileSelect env selectedFiles s =
     (case selectedFiles of
        None \<Rightarrow> s
      | Some batch \<Rightarrow>
          (let (new, s1) = newFiles env batch s
           in s1\<lparr>files := files s1 @ new\<rparr>))"

text \<open>
  \<^verbatim>\<open>handleInputChange\<close> forwards the picker's files (the reset of the input's value
  touches no state of the model); \<^verbatim>\<open>handleDragOver\<close>, \<^verbatim>\<open>handleDragLeave\<close> and
  \<^verbatim>\<open>handleDrop\<close> set the flag, the last one then forwards the dropped files.
\<close>

definition handleInputChange :: "browser \<Rightarrow> File list option \<Rightarrow> state \<Rightarrow> state" where
  "handleInputChange env fs s = handleFileSelect env fs s"

definition handleDragOver :: "state \<Rightarrow> state" where
  "handleDragOver s = s\<lparr>isDragOver := True\<rparr>"

definition handleDragLeave :: "state \<Rightarrow> state" where
  "handleDragLeave s = s\<lparr>isDragOver := False\<rparr>"

definition handleDrop :: "browser \<Rightarrow> File list option \<Rightarrow> state \<Rightarrow> state" where
  "handleDrop env fs s = handleFileSelect env fs (s\<lparr>isDragOver := False\<rparr>)"

subsection \<open>Removing files\<close>

text \<open>
  JavaScript's truthiness of an optional string, as in \<^verbatim>\<open>if (fileToRemove?.previewUrl)\<close>
  and in the list's \<^verbatim>\<open>fileItem.previewUrl ? <img .../> : <File .../>\<close>: \<^verbatim>\<open>undefined\<close>
  and the empty string are falsy.
\<close>

definition truthy :: "string option \<Rightarrow> bool" where
  "truthy v = (case v of None \<Rightarrow> False | Some u \<Rightarrow> u \<noteq> [])"

text \<open>
  \<^verbatim>\<open>
  const removeFile = (id: string) => {
    setFiles((prev) => {
      const fileToRemove = prev.find((file) => file.id === id)
      if (fileToRemove?.previewUrl) {
        URL.revokeObjectURL(fileToRemove.previewUrl)
      }
      return prev.filter((file) => file.id !== id)
    })
  }
  \<close>
  The updater is run once on the current list.
\<close>

definition removeFile :: "string \<Rightarrow> state \<Rightarrow> state" where
  "removeFile x s =
     (let prev = files s;
          fileToRemove = find (\<lambda>f. id' f = x) prev;
          s1 = (case fileToRemove of
                  None \<Rightarrow> s
                | Some f \<Rightarrow>
                    (if truthy (previewUrl f) then revokeObjectURL (the (previewUrl f)) s
                     else s))
      in s1\<lparr>files := filter (\<lambda>f. id' f \<noteq> x) prev\<rparr>)"

text \<open>The \<^verbatim>\<open>Clear All\<close> button: \<^verbatim>\<open>onClick={() => setFiles([])}\<close>.\<close>

definition clearAll :: "state \<Rightarrow> state" where
  "clearAll s = s\<lparr>files := []\<rparr>"

subsection \<open>Formatting sizes\<close>

text \<open>
  \<^verbatim>\<open>Math.floor(Math.log(bytes) / Math.log(k))\<close> for an integer \<open>bytes \<ge> 1\<close>, computed on
  the integers: the number of times \<open>bytes\<close> can be divided by \<open>k\<close> before it drops
  below \<open>k\<close>. This is the floor of the exact logarithm (lemma \<open>floorLog_is_floor_log\<close>
  below); the rounding of the floating-point quotient is not modelled.
\<close>

fun floorLog :: "nat \<Rightarrow> nat \<Rightarrow> nat" where
  "floorLog k b = (if k < 2 \<or> b < k then 0 else Suc (floorLog k (b div k)))"

declare floorLog.simps [simp del]

text \<open>Decimal digits of a natural number, as \<^verbatim>\<open>String(n)\<close> prints them.\<close>

definition digit :: "nat \<Rightarrow> char" where
  "digit d = ''0123456789'' ! d"

fun showNat :: "nat \<Rightarrow> string" where
  "showNat n = (if n < 10 then [digit n] else showNat (n div 10) @ [digit (n mod 10)])"

declare showNat.simps [simp del]

text \<open>
  \<^verbatim>\<open>(bytes / d).toFixed(2)\<close> for a power of two \<open>d\<close>: for a byte count below \<open>2\<^sup>5\<^sup>3\<close>
  the quotient is exact in binary floating point, and \<^verbatim>\<open>toFixed\<close> picks the nearest
  multiple of 1/100, the larger one on a tie. The result is kept as a number of
  hundredths.
\<close>

definition toFixed2 :: "nat \<Rightarrow> nat \<Rightarrow> nat" where
  "toFixed2 b d = (200 * b + d) div (2 * d)"

text \<open>
  \<^verbatim>\<open>Number.parseFloat("123.40") + ""\<close>: the number of hundredths \<open>h\<close> printed without
  trailing zeros, and without the point when the fraction is zero.
\<close>

definition showHundredths :: "nat \<Rightarrow> string" where
  "showHundredths h =
     showNat (h div 100) @
     (if h mod 100 = 0 then []
      else ''.'' @ [digit (h mod 100 div 10)] @
           (if h mod 10 = 0 then [] else [digit (h mod 10)]))"

definition sizes :: "string list" where
  "sizes = [''Bytes'', ''KB'', ''MB'', ''GB'']"

text \<open>
  \<^verbatim>\<open>sizes[i]\<close> inside a string concatenation: an index past the end of the array reads
  \<^verbatim>\<open>undefined\<close>, which \<^verbatim>\<open>+\<close> prints as the text "undefined".
\<close>

definition sizeLabel :: "nat \<Rightarrow> string" where
  "sizeLabel i = (if i < length sizes then sizes ! i else ''undefined'')"

text \<open>
  \<^verbatim>\<open>
  const formatFileSize = (bytes: number) => {
    if (bytes === 0) return "0 Bytes"
    const k = 1024
    const sizes = ["Bytes", "KB", "MB", "GB"]
    const i = Math.floor(Math.log(bytes) / Math.log(k))
    return Number.parseFloat((bytes / Math.pow(k, i)).toFixed(2)) + " " + sizes[i]
  }
  \<close>
  The argument is always \<^verbatim>\<open>fileItem.file.size\<close>, a natural number.
\<close>

definition formatFileSize :: "nat \<Rightarrow> string" where
  "formatFileSize bytes =
     (if bytes = 0 then ''0 Bytes''
      else (let k = 1024;
                i = floorLog k bytes
            in showHundredths (toFixed2 bytes (k ^ i)) @ '' '' @ sizeLabel i))"

subsection \<open>Events\<close>

text \<open>
  The handlers the rendered tree wires up: the picker's \<^verbatim>\<open>onChange\<close>, the drop area's
  \<^verbatim>\<open>onDragOver\<close>, \<^verbatim>\<open>onDragLeave\<close> and \<^verbatim>\<open>onDrop\<close>, a row's remove button and the
  \<^verbatim>\<open>Clear All\<close> button. A run of the component is a list of events, handled one
  after the other.
\<close>

datatype event =
  InputChange "File list option"
| DragOver
| DragLeave
| Drop "File list option"
| RemoveClick string
| ClearAllClick

fun fire :: "browser \<Rightarrow> event \<Rightarrow> state \<Rightarrow> state" where
  "fire env (InputChange fs) s = handleInputChange env fs s"
| "fire env DragOver s = handleDragOver s"
| "fire env DragLeave s = handleDragLeave s"
| "fire env (Drop fs) s = handleDrop env fs s"
| "fire env (RemoveClick x) s = removeFile x s"
| "fire env ClearAllClick s = clearAll s"

fun run :: "browser \<Rightarrow> event list \<Rightarrow> state \<Rightarrow> state" where
  "run env [] s = s"
| "run env (e # es) s = run env es (fire env e s)"

subsection \<open>Sample inputs\<close>

text \<open>
  Two files, a browser whose generator yields a new id at every call, and one whose
  generator yields the same id at every call. Both browsers hand out a new object URL
  at every call.
\<close>

definition pngFile :: File where
  "pngFile = \<lparr>fileName = ''photo.png'', fileSize = 1536, fileType = ''image/png''\<rparr>"

definition pdfFile :: File where
  "pdfFile = \<lparr>fileName = ''report.pdf'', fileSize = 1048576, fileType = ''application/pdf''\<rparr>"

definition demoBrowser :: browser where
  "demoBrowser =
     \<lparr>randomId = (\<lambda>k. replicate (Suc k) CHR ''a''),
      objectURL = (\<lambda>k. ''blob:'' @ replicate (Suc k) CHR ''u'')\<rparr>"

definition stuckBrowser :: browser where
  "stuckBrowser = demoBrowser\<lparr>randomId := (\<lambda>k. ''k3j9x0q1z'')\<rparr>"

text \<open>The state after picking an image and a document, with distinct ids.\<close>

definition demoState :: state where
  "demoState = handleFileSelect demoBrowser (Some [pngFile, pdfFile]) initialState"

text \<open>The state after picking two images when the generator repeats itself.\<close>

definition dupState :: state where
  "dupState = handleFileSelect stuckBrowser (Some [pngFile, pngFile]) initialState"

section \<open>Properties\<close>

subsection \<open>Formatting sizes\<close>

lemma floorLog_less: "1 < k \<Longrightarrow> b < k \<Longrightarrow> floorLog k b = 0"
  by (simp add: floorLog.simps)

lemma floorLog_step: "1 < k \<Longrightarrow> k \<le> b \<Longrightarrow> floorLog k b = Suc (floorLog k (b div k))"
  by (simp add: floorLog.simps)

text \<open>
  \<open>floorLog k b\<close> is the exponent of the largest power of \<open>k\<close> that is at most \<open>b\<close>,
  which is what \<^verbatim>\<open>Math.floor(Math.log(b) / Math.log(k))\<close> computes in exact arithmetic.
\<close>

lemma floorLog_lower: "1 < k \<Longrightarrow> 0 < b \<Longrightarrow> k ^ floorLog k b \<le> b"
proof (induction k b rule: floorLog.induct)
  case (1 k b)
  show ?case
  proof (cases "b < k")
    case True
    with 1 show ?thesis by (simp add: floorLog_less)
  next
    case False
    with 1 have "0 < b div k" by (simp add: div_greater_zero_iff)
    with 1 False have "k ^ floorLog k (b div k) \<le> b div k" by simp
    then have "k * k ^ floorLog k (b div k) \<le> k * (b div k)" by simp
    also have "\<dots> \<le> b" by simp
    finally show ?thesis using 1 False by (simp add: floorLog_step)
  qed
qed

lemma floorLog_upper: "1 < k \<Longrightarrow> b < k ^ Suc (floorLog k b)"
proof (induction k b rule: floorLog.induct)
  case (1 k b)
  show ?case
  proof (cases "b < k")
    case True
    with 1 show ?thesis by (simp add: floorLog_less)
  next
    case False
    with 1 have "b div k < k ^ Suc (floorLog k (b div k))" by simp
    then have "b < k * k ^ Suc (floorLog k (b div k))"
      using 1(2) by (simp add: div_less_iff_less_mult mult.commute)
    then show ?thesis using 1 False by (simp add: floorLog_step)
  qed
qed

lemma floorLog_is_floor_log:
  assumes "0 < b"
  shows "\<lfloor>ln (real b) / ln 1024\<rfloor> = int (floorLog 1024 b)"
proof -
  have "\<lfloor>log (real (1024::nat)) (real b)\<rfloor> = int (floorLog 1024 b)"
    using floorLog_lower [of 1024 b] floorLog_upper [of 1024 b] assms
    by (intro floor_log_nat_eq_if) simp_all
  then show ?thesis by (simp add: log_def)
qed

lemma floorLog_small:
  assumes "0 < b" and "b < 1024 ^ 4"
  shows "floorLog 1024 b < 4"
proof -
  have one: "(1::nat) < 1024" by simp
  have "(1024::nat) ^ floorLog 1024 b \<le> b"
    using assms(1) by (intro floorLog_lower) simp
  then have "(1024::nat) ^ floorLog 1024 b < 1024 ^ 4"
    using assms(2) by (rule le_less_trans)
  then show ?thesis
    by (rule power_less_imp_less_exp [OF one])
qed

lemma floorLog_large:
  assumes "1024 ^ 4 \<le> b"
  shows "4 \<le> floorLog 1024 b"
proof -
  have one: "(1::nat) < 1024" by simp
  have "b < 1024 ^ Suc (floorLog 1024 b)"
    by (intro floorLog_upper) simp
  with assms have "(1024::nat) ^ 4 < 1024 ^ Suc (floorLog 1024 b)"
    by (rule le_less_trans)
  then have "4 < Suc (floorLog 1024 b)"
    by (rule power_less_imp_less_exp [OF one])
  then show ?thesis by simp
qed

lemma sizeLabel_small: "i < 4 \<Longrightarrow> sizeLabel i \<in> set sizes"
proof -
  assume "i < 4"
  moreover have "length sizes = 4" by (simp add: sizes_def)
  ultimately show ?thesis by (simp add: sizeLabel_def)
qed

lemma sizeLabel_large: "4 \<le> i \<Longrightarrow> sizeLabel i = ''undefined''"
  by (simp add: sizeLabel_def sizes_def)

lemma formatFileSize_zero: "formatFileSize 0 = ''0 Bytes''"
  by (simp add: formatFileSize_def)

lemma formatFileSize_pos:
  "0 < b \<Longrightarrow>
   formatFileSize b =
     showHundredths (toFixed2 b (1024 ^ floorLog 1024 b)) @ '' '' @ sizeLabel (floorLog 1024 b)"
  by (simp add: formatFileSize_def Let_def)

lemmas formatFileSize_eval =
  formatFileSize_zero formatFileSize_pos floorLog.simps toFixed2_def showHundredths_def
  showNat.simps digit_def sizeLabel_def sizes_def

text \<open>
  Below \<open>1024\<^sup>4\<close> bytes the result ends in one of the four labels; from \<open>1024\<^sup>4\<close> bytes
  on the index \<open>i\<close> is 4 or more, nothing clamps it, and the result ends in
  "undefined".
\<close>

lemma formatFileSize_below_TiB:
  "0 < b \<Longrightarrow> b < 1024 ^ 4 \<Longrightarrow> \<exists>v u. formatFileSize b = v @ '' '' @ u \<and> u \<in> set sizes"
  using sizeLabel_small [OF floorLog_small] by (auto simp: formatFileSize_pos)

lemma formatFileSize_from_TiB:
  "1024 ^ 4 \<le> b \<Longrightarrow> \<exists>v. formatFileSize b = v @ '' undefined''"
  using sizeLabel_large [OF floorLog_large] by (auto simp: formatFileSize_pos)

text \<open>
  Claim C2, at a file of 2 TiB (\<open>2 * 1024\<^sup>4\<close> bytes): the unit index is 4, past the
  end of \<^verbatim>\<open>sizes\<close>, and the string ends in "undefined", not in one of "Bytes", "KB",
  "MB", "GB".
\<close>

theorem formatFileSize_two_TiB: "formatFileSize 2199023255552 = ''2 undefined''"
  by (simp add: formatFileSize_eval)

text \<open>
  Claim C4. \<^verbatim>\<open>formatFileSize\<close> prints 0 as "0 Bytes", 1024 as "1 KB", 1536 as
  "1.5 KB" and 1048576 as "1 MB".
\<close>

theorem formatFileSize_examples:
  "formatFileSize 0 = ''0 Bytes'' \<and>
   formatFileSize 1024 = ''1 KB'' \<and>
   formatFileSize 1536 = ''1.5 KB'' \<and>
   formatFileSize 1048576 = ''1 MB''"
  by (simp add: formatFileSize_eval)

subsection \<open>Selecting files\<close>

lemma newFile_file [simp]: "file' (fst (newFile env f s)) = f"
  by (simp add: newFile_def generateId_def createObjectURL_def Let_def)

lemma newFile_id [simp]: "id' (fst (newFile env f s)) = randomId env (randomCalls s)"
  by (simp add: newFile_def generateId_def createObjectURL_def Let_def)

lemma newFile_previewUrl:
  "previewUrl (fst (newFile env f s)) =
     (if startsWith (fileType f) ''image/'' then Some (objectURL env (length (created s)))
      else None)"
  by (simp add: newFile_def generateId_def createObjectURL_def Let_def)

lemma newFile_state [simp]:
  "files (snd (newFile env f s)) = files s"
  "isDragOver (snd (newFile env f s)) = isDragOver s"
  "revoked (snd (newFile env f s)) = revoked s"
  "randomCalls (snd (newFile env f s)) = Suc (randomCalls s)"
  by (simp_all add: newFile_def generateId_def createObjectURL_def Let_def)

lemma newFiles_Cons:
  "newFiles env (f # fs) s =
     (fst (newFile env f s) # fst (newFiles env fs (snd (newFile env f s))),
      snd (newFiles env fs (snd (newFile env f s))))"
  by (simp add: split_beta Let_def)

declare newFiles.simps(2) [simp del]

lemma newFiles_state_all:
  "files (snd (newFiles env fs s)) = files s \<and>
   isDragOver (snd (newFiles env fs s)) = isDragOver s \<and>
   revoked (snd (newFiles env fs s)) = revoked s \<and>
   randomCalls (snd (newFiles env fs s)) = randomCalls s + length fs"
  by (induction fs arbitrary: s) (simp_all add: newFiles_Cons)

lemmas newFiles_state [simp] =
  newFiles_state_all [THEN conjunct1]
  newFiles_state_all [THEN conjunct2, THEN conjunct1]
  newFiles_state_all [THEN conjunct2, THEN conjunct2, THEN conjunct1]
  newFiles_state_all [THEN conjunct2, THEN conjunct2, THEN conjunct2]

lemma newFiles_file [simp]: "map file' (fst (newFiles env fs s)) = fs"
  by (induction fs arbitrary: s) (simp_all add: newFiles_Cons)

lemma newFiles_length [simp]: "length (fst (newFiles env fs s)) = length fs"
  by (induction fs arbitrary: s) (simp_all add: newFiles_Cons)

text \<open>The ids of a batch are the generator's next outcomes, in order.\<close>

lemma newFiles_id:
  "map id' (fst (newFiles env fs s)) =
     map (randomId env) [randomCalls s ..< randomCalls s + length fs]"
proof (induction fs arbitrary: s)
  case Nil
  show ?case by simp
next
  case (Cons f fs)
  have "[randomCalls s ..< randomCalls s + length (f # fs)] =
          randomCalls s # [Suc (randomCalls s) ..< Suc (randomCalls s) + length fs]"
    using upt_conv_Cons [of "randomCalls s" "randomCalls s + length (f # fs)"] by simp
  then show ?case
    using Cons [of "snd (newFile env f s)"] by (simp add: newFiles_Cons)
qed

lemma newFiles_preview:
  "r \<in> set (fst (newFiles env fs s)) \<Longrightarrow>
     (previewUrl r \<noteq> None) = startsWith (fileType (file' r)) ''image/''"
proof (induction fs arbitrary: s)
  case Nil
  then show ?case by simp
next
  case (Cons f fs)
  then show ?case
    by (auto simp: newFiles_Cons newFile_previewUrl split: if_splits)
qed

lemma handleFileSelect_Some:
  "handleFileSelect env (Some batch) s =
     (snd (newFiles env batch s))\<lparr>files := files s @ fst (newFiles env batch s)\<rparr>"
  by (simp add: handleFileSelect_def split_beta)

lemma handleFileSelect_files:
  "files (handleFileSelect env (Some batch) s) = files s @ fst (newFiles env batch s)"
  by (simp add: handleFileSelect_Some)

lemma handleFileSelect_randomCalls:
  "randomCalls (handleFileSelect env (Some batch) s) = randomCalls s + length batch"
  by (simp add: handleFileSelect_Some)

text \<open>The two sample states, evaluated.\<close>

lemmas select_eval =
  handleFileSelect_def newFiles.simps newFile_def generateId_def createObjectURL_def
  startsWith_def initialState_def Let_def

lemma demoState_eval:
  "demoState =
     \<lparr>files = [\<lparr>id' = ''a'', file' = pngFile, previewUrl = Some ''blob:u''\<rparr>,
               \<lparr>id' = ''aa'', file' = pdfFile, previewUrl = None\<rparr>],
      isDragOver = False, randomCalls = 2, created = [''blob:u''], revoked = []\<rparr>"
  by (simp add: demoState_def select_eval demoBrowser_def pngFile_def pdfFile_def)

lemma dupState_eval:
  "dupState =
     \<lparr>files = [\<lparr>id' = ''k3j9x0q1z'', file' = pngFile, previewUrl = Some ''blob:u''\<rparr>,
               \<lparr>id' = ''k3j9x0q1z'', file' = pngFile, previewUrl = Some ''blob:uu''\<rparr>],
      isDragOver = False, randomCalls = 2, created = [''blob:u'', ''blob:uu''], revoked = []\<rparr>"
  by (simp add: dupState_def select_eval stuckBrowser_def demoBrowser_def pngFile_def)

text \<open>
  Claim C5. The records that \<^verbatim>\<open>handleFileSelect\<close> adds for a batch are the records of
  the batch's files, one per file and in order, and such a record has a
  \<^verbatim>\<open>previewUrl\<close> exactly when its file's type starts with "image/".
\<close>

theorem handleFileSelect_preview_iff:
  "map file' (drop (length (files s)) (files (handleFileSelect env (Some batch) s))) = batch \<and>
   (\<forall>r \<in> set (drop (length (files s)) (files (handleFileSelect env (Some batch) s))).
      (previewUrl r \<noteq> None) = startsWith (fileType (file' r)) ''image/'')"
  using newFiles_preview [of _ env batch s] by (simp add: handleFileSelect_files)

text \<open>
  At the sample batch: the record of the "image/png" file has a preview URL, the
  record of the "application/pdf" file has none.
\<close>

theorem handleFileSelect_preview_iff_witness:
  "startsWith (fileType pngFile) ''image/'' \<and>
   \<not> startsWith (fileType pdfFile) ''image/'' \<and>
   map file' (files demoState) = [pngFile, pdfFile] \<and>
   map previewUrl (files demoState) = [Some ''blob:u'', None]"
proof -
  have types:
    "startsWith (fileType pngFile) ''image/''"
    "\<not> startsWith (fileType pdfFile) ''image/''"
    by (simp_all add: startsWith_def pngFile_def pdfFile_def)
  from handleFileSelect_preview_iff
         [of initialState demoBrowser "[pngFile, pdfFile]", folded demoState_def]
  show ?thesis
    using types by (simp add: demoState_eval initialState_def)
qed

text \<open>
  Claim C6. \<^verbatim>\<open>handleFileSelect\<close> keeps the records that were there, in place and in
  order, and puts the records of the batch behind them in the batch's order. So two
  selections in a row list the files of the first before the files of the second, and
  an empty batch (or no batch at all) changes nothing.
\<close>

theorem handleFileSelect_appends:
  "files (handleFileSelect env (Some batch) s) = files s @ fst (newFiles env batch s) \<and>
   take (length (files s)) (files (handleFileSelect env (Some batch) s)) = files s \<and>
   map file' (drop (length (files s)) (files (handleFileSelect env (Some batch) s))) = batch \<and>
   map file' (files (handleFileSelect env (Some ys) (handleFileSelect env (Some xs) s))) =
     map file' (files s) @ xs @ ys \<and>
   map file'
     (files (handleFileSelect env (Some [c]) (handleFileSelect env (Some [a, b]) initialState))) =
     [a, b, c] \<and>
   handleFileSelect env (Some []) s = s \<and>
   handleFileSelect env None s = s"
  by (simp add: handleFileSelect_files initialState_def handleFileSelect_Some [of env "[]"])
    (simp add: handleFileSelect_def)

subsection \<open>Removing files\<close>

lemma find_first:
  "xs = pre @ r # post \<Longrightarrow> \<forall>y \<in> set pre. \<not> P y \<Longrightarrow> P r \<Longrightarrow> find P xs = Some r"
  by (induction pre arbitrary: xs) auto

lemma find_distinct_id:
  "distinct (map id' xs) \<Longrightarrow> r \<in> set xs \<Longrightarrow> find (\<lambda>f. id' f = id' r) xs = Some r"
  by (induction xs) (auto simp: image_iff)

lemma find_absent: "x \<notin> id' ` set xs \<Longrightarrow> find (\<lambda>f. id' f = x) xs = None"
  by (induction xs) auto

lemma filter_absent: "x \<notin> id' ` set xs \<Longrightarrow> filter (\<lambda>f. id' f \<noteq> x) xs = xs"
  by (induction xs) auto

lemma filter_distinct_id:
  "distinct (map id' (pre @ r # post)) \<Longrightarrow>
   filter (\<lambda>f. id' f \<noteq> id' r) (pre @ r # post) = pre @ post"
  by (auto simp: filter_absent image_iff intro!: filter_True)

lemma removeFile_files [simp]:
  "files (removeFile x s) = filter (\<lambda>f. id' f \<noteq> x) (files s)"
  by (simp add: removeFile_def revokeObjectURL_def Let_def split: option.split)

lemma removeFile_isDragOver [simp]: "isDragOver (removeFile x s) = isDragOver s"
  by (simp add: removeFile_def revokeObjectURL_def Let_def split: option.split)

lemma removeFile_randomCalls [simp]: "randomCalls (removeFile x s) = randomCalls s"
  by (simp add: removeFile_def revokeObjectURL_def Let_def split: option.split)

lemma removeFile_revoked:
  "revoked (removeFile x s) =
     revoked s @
     (case find (\<lambda>f. id' f = x) (files s) of
        None \<Rightarrow> []
      | Some f \<Rightarrow> (if truthy (previewUrl f) then [the (previewUrl f)] else []))"
  by (simp add: removeFile_def revokeObjectURL_def Let_def split: option.split)

lemma removeFile_revoked_length:
  "length (revoked (removeFile x s)) \<le> Suc (length (revoked s))"
  by (simp add: removeFile_revoked split: option.split)

lemma removeFile_absent: "x \<notin> id' ` set (files s) \<Longrightarrow> removeFile x s = s"
  by (simp add: removeFile_def Let_def find_absent filter_absent)

lemma removeFile_id_gone: "x \<notin> id' ` set (files (removeFile x s))"
  by auto

text \<open>
  Claim C7. In a list with pairwise distinct ids, let the record \<open>r\<close> with id \<open>x\<close> own
  the preview URL \<open>u\<close> (an object URL, so not the empty string, which the code's test
  \<^verbatim>\<open>if (fileToRemove?.previewUrl)\<close> takes for no URL at all). Then \<^verbatim>\<open>removeFile(x)\<close>
  makes one call of \<^verbatim>\<open>URL.revokeObjectURL\<close>, with argument \<open>u\<close>, and the list has no
  record with id \<open>x\<close> afterwards.
\<close>

theorem removeFile_releases_once:
  assumes "distinct (map id' (files s))"
    and "r \<in> set (files s)"
    and "id' r = x"
    and "previewUrl r = Some u"
    and "u \<noteq> []"
  shows "revoked (removeFile x s) = revoked s @ [u] \<and>
         x \<notin> id' ` set (files (removeFile x s)) \<and>
         r \<notin> set (files (removeFile x s))"
proof -
  from assms(1-3) have "find (\<lambda>f. id' f = x) (files s) = Some r"
    using find_distinct_id [of "files s" r] by simp
  with assms(4,5) have "revoked (removeFile x s) = revoked s @ [u]"
    by (simp add: removeFile_revoked truthy_def)
  moreover from assms(3) have "r \<notin> set (files (removeFile x s))"
    by simp
  ultimately show ?thesis
    using removeFile_id_gone [of x s] by simp
qed

text \<open>Removing the image of the sample state revokes its one URL and leaves the document.\<close>

theorem removeFile_releases_once_witness:
  "distinct (map id' (files demoState)) \<and>
   revoked demoState = [] \<and>
   revoked (removeFile ''a'' demoState) = [''blob:u''] \<and>
   ''a'' \<notin> id' ` set (files (removeFile ''a'' demoState))"
proof -
  have d: "distinct (map id' (files demoState))"
    by (simp add: demoState_eval)
  have r: "\<lparr>id' = ''a'', file' = pngFile, previewUrl = Some ''blob:u''\<rparr> \<in> set (files demoState)"
    by (simp add: demoState_eval)
  have e: "revoked demoState = []"
    by (simp add: demoState_eval)
  from removeFile_releases_once [OF d r, of "''a''" "''blob:u''"] d e
  show ?thesis by simp
qed

text \<open>
  Claim C8. \<^verbatim>\<open>removeFile(x)\<close> for an id that no record has changes nothing: not the
  list, and no URL is revoked. So a second \<^verbatim>\<open>removeFile(x)\<close> right after the first
  changes nothing, and the two calls together revoke at most one URL.
\<close>

theorem removeFile_idempotent:
  "(x \<notin> id' ` set (files s) \<longrightarrow> removeFile x s = s) \<and>
   removeFile x (removeFile x s) = removeFile x s \<and>
   length (revoked (removeFile x (removeFile x s))) \<le> Suc (length (revoked s))"
proof -
  have "removeFile x (removeFile x s) = removeFile x s"
    using removeFile_id_gone [of x s] by (rule removeFile_absent)
  then show ?thesis
    using removeFile_revoked_length [of x s] by (simp add: removeFile_absent)
qed

theorem removeFile_idempotent_witness:
  "''zz'' \<notin> id' ` set (files demoState) \<and>
   removeFile ''zz'' demoState = demoState \<and>
   removeFile ''a'' (removeFile ''a'' demoState) = removeFile ''a'' demoState"
proof -
  have a: "''zz'' \<notin> id' ` set (files demoState)"
    by (simp add: demoState_eval)
  from removeFile_idempotent [of "''zz''" demoState] removeFile_idempotent [of "''a''" demoState] a
  show ?thesis by simp
qed

text \<open>
  Claim C9. In a list with pairwise distinct ids, \<^verbatim>\<open>removeFile(x)\<close> takes out the one
  record with id \<open>x\<close> and nothing else: what comes before it and what comes after it
  stay as they are and in order (every other record is kept as it is, and the new list
  is a subsequence of the old one), a list without id \<open>x\<close> stays as it is, and
  \<^verbatim>\<open>isDragOver\<close> keeps its value.
\<close>

theorem removeFile_frame:
  assumes "distinct (map id' (files s))"
  shows "isDragOver (removeFile x s) = isDragOver s \<and>
         (\<forall>r \<in> set (files s). id' r \<noteq> x \<longrightarrow> r \<in> set (files (removeFile x s))) \<and>
         subseq (files (removeFile x s)) (files s) \<and>
         (\<forall>pre r post. files s = pre @ r # post \<and> id' r = x \<longrightarrow>
            files (removeFile x s) = pre @ post) \<and>
         (x \<notin> id' ` set (files s) \<longrightarrow> files (removeFile x s) = files s)"
proof -
  have "files (removeFile x s) = pre @ post"
    if "files s = pre @ r # post" and "id' r = x" for pre r post
    using assms that filter_distinct_id [of pre r post] by simp
  then show ?thesis
    by (auto simp: filter_absent)
qed

theorem removeFile_frame_witness:
  "distinct (map id' (files demoState)) \<and>
   files demoState =
     [\<lparr>id' = ''a'', file' = pngFile, previewUrl = Some ''blob:u''\<rparr>,
      \<lparr>id' = ''aa'', file' = pdfFile, previewUrl = None\<rparr>] \<and>
   files (removeFile ''a'' demoState) = [\<lparr>id' = ''aa'', file' = pdfFile, previewUrl = None\<rparr>] \<and>
   isDragOver (removeFile ''a'' demoState) = isDragOver demoState"
proof -
  have d: "distinct (map id' (files demoState))"
    by (simp add: demoState_eval)
  have f: "files demoState =
     [] @ \<lparr>id' = ''a'', file' = pngFile, previewUrl = Some ''blob:u''\<rparr> #
     [\<lparr>id' = ''aa'', file' = pdfFile, previewUrl = None\<rparr>]"
    by (simp add: demoState_eval)
  from removeFile_frame [OF d, of "''a''"]
  have "\<forall>pre r post. files demoState = pre @ r # post \<and> id' r = ''a'' \<longrightarrow>
          files (removeFile ''a'' demoState) = pre @ post"
    and "isDragOver (removeFile ''a'' demoState) = isDragOver demoState"
    by blast+
  with f d show ?thesis
    by (metis FileWithId.select_convs(1) append_Nil)
qed

text \<open>
  Claim C10. In any list, also one where several records have the id \<open>x\<close>,
  \<^verbatim>\<open>removeFile(x)\<close> takes out every record with id \<open>x\<close> and keeps every other one, but
  makes at most one call of \<^verbatim>\<open>URL.revokeObjectURL\<close>: for the URL of the first record
  with id \<open>x\<close>, if that record has one. The URLs of later records with id \<open>x\<close> are
  not revoked.
\<close>

theorem removeFile_duplicate_ids:
  "x \<notin> id' ` set (files (removeFile x s)) \<and>
   (\<forall>r \<in> set (files s). id' r \<noteq> x \<longrightarrow> r \<in> set (files (removeFile x s))) \<and>
   length (revoked (removeFile x s)) \<le> Suc (length (revoked s)) \<and>
   (\<forall>pre r post. files s = pre @ r # post \<and> x \<notin> id' ` set pre \<and> id' r = x \<longrightarrow>
      revoked (removeFile x s) =
        revoked s @ (if truthy (previewUrl r) then [the (previewUrl r)] else []))"
proof -
  have "revoked (removeFile x s) =
          revoked s @ (if truthy (previewUrl r) then [the (previewUrl r)] else [])"
    if "files s = pre @ r # post" and "x \<notin> id' ` set pre" and "id' r = x" for pre r post
  proof -
    from that have "find (\<lambda>f. id' f = x) (files s) = Some r"
      by (intro find_first [of _ pre r post]) (auto simp: image_iff)
    then show ?thesis
      by (simp add: removeFile_revoked)
  qed
  then show ?thesis
    using removeFile_revoked_length [of x s] by auto
qed

text \<open>
  Two records with the same id, each with a URL of its own: both records go, the first
  URL is revoked, the second one is not.
\<close>

theorem removeFile_duplicate_ids_witness:
  "map id' (files dupState) = [''k3j9x0q1z'', ''k3j9x0q1z''] \<and>
   map previewUrl (files dupState) = [Some ''blob:u'', Some ''blob:uu''] \<and>
   revoked dupState = [] \<and>
   files (removeFile ''k3j9x0q1z'' dupState) = [] \<and>
   revoked (removeFile ''k3j9x0q1z'' dupState) = [''blob:u'']"
proof -
  have f: "files dupState =
     [] @ \<lparr>id' = ''k3j9x0q1z'', file' = pngFile, previewUrl = Some ''blob:u''\<rparr> #
     [\<lparr>id' = ''k3j9x0q1z'', file' = pngFile, previewUrl = Some ''blob:uu''\<rparr>]"
    by (simp add: dupState_eval)
  have e: "revoked dupState = []"
    by (simp add: dupState_eval)
  from removeFile_duplicate_ids [of "''k3j9x0q1z''" dupState]
  have "\<forall>pre r post.
          files dupState = pre @ r # post \<and> ''k3j9x0q1z'' \<notin> id' ` set pre \<and>
          id' r = ''k3j9x0q1z'' \<longrightarrow>
          revoked (removeFile ''k3j9x0q1z'' dupState) =
            revoked dupState @ (if truthy (previewUrl r) then [the (previewUrl r)] else [])"
    by blast
  from this [rule_format, of "[]" _ "[_]", OF conjI [OF f]] e
  have "revoked (removeFile ''k3j9x0q1z'' dupState) = [''blob:u'']"
    by (simp add: truthy_def)
  then show ?thesis
    using e by (simp add: dupState_eval)
qed

subsection \<open>Clear All\<close>

lemma clearAll_state:
  "files (clearAll s) = [] \<and> revoked (clearAll s) = revoked s \<and>
   isDragOver (clearAll s) = isDragOver s \<and> randomCalls (clearAll s) = randomCalls s"
  by (simp add: clearAll_def)

text \<open>
  Claim C1, at the sample state: one of its two records owns a preview URL, and
  \<^verbatim>\<open>Clear All\<close> empties the list without a single call of \<^verbatim>\<open>URL.revokeObjectURL\<close>;
  the URL that was created stays unrevoked.
\<close>

theorem clearAll_revokes_nothing:
  "length (files demoState) = 2 \<and>
   length (filter (\<lambda>r. truthy (previewUrl r)) (files demoState)) = 1 \<and>
   created demoState = [''blob:u''] \<and>
   revoked demoState = [] \<and>
   files (clearAll demoState) = [] \<and>
   revoked (clearAll demoState) = []"
  by (simp add: demoState_eval clearAll_def truthy_def)

subsection \<open>Ids\<close>

lemma demoBrowser_inj: "inj (randomId demoBrowser)"
proof (rule injI)
  fix j k
  assume "randomId demoBrowser j = randomId demoBrowser k"
  then have "length (replicate (Suc j) CHR ''a'') = length (replicate (Suc k) CHR ''a'')"
    by (simp add: demoBrowser_def)
  then show "j = k" by simp
qed

text \<open>
  The invariant behind distinct ids: the ids in the list are pairwise distinct, and
  each of them is one of the outcomes the generator has produced so far. When the
  generator never repeats an outcome, every handler keeps it.
\<close>

lemma handleFileSelect_keeps_ids:
  assumes "inj (randomId env)"
    and "distinct (map id' (files s))"
    and "id' ` set (files s) \<subseteq> randomId env ` {..< randomCalls s}"
  shows "distinct (map id' (files (handleFileSelect env sel s))) \<and>
         id' ` set (files (handleFileSelect env sel s)) \<subseteq>
           randomId env ` {..< randomCalls (handleFileSelect env sel s)}"
proof (cases sel)
  case None
  with assms show ?thesis by (simp add: handleFileSelect_def)
next
  case (Some batch)
  let ?n = "randomCalls s"
  let ?new = "fst (newFiles env batch s)"
  have new: "map id' ?new = map (randomId env) [?n ..< ?n + length batch]"
    by (rule newFiles_id)
  have inj_on: "inj_on (randomId env) A" for A
    using assms(1) by (rule inj_on_subset) simp
  have "distinct (map id' ?new)"
    unfolding new by (simp add: distinct_map inj_on)
  moreover have new_set: "id' ` set ?new = randomId env ` {?n ..< ?n + length batch}"
    using arg_cong [OF new, of set] by simp
  have "id' ` set (files s) \<inter> id' ` set ?new = {}"
  proof -
    have "randomId env ` {..< ?n} \<inter> randomId env ` {?n ..< ?n + length batch} = {}"
      using assms(1) by (force dest: injD)
    with assms(3) new_set show ?thesis by blast
  qed
  moreover have "id' ` set (files s) \<union> id' ` set ?new \<subseteq>
                   randomId env ` {..< ?n + length batch}"
    using assms(3) new_set by auto
  ultimately show ?thesis
    using assms(2) Some
    by (simp add: handleFileSelect_files handleFileSelect_randomCalls image_Un)
qed

lemma fire_keeps_ids:
  assumes "inj (randomId env)"
    and "distinct (map id' (files s))"
    and "id' ` set (files s) \<subseteq> randomId env ` {..< randomCalls s}"
  shows "distinct (map id' (files (fire env e s))) \<and>
         id' ` set (files (fire env e s)) \<subseteq> randomId env ` {..< randomCalls (fire env e s)}"
proof (cases e)
  case (InputChange fs)
  then show ?thesis
    using handleFileSelect_keeps_ids [OF assms] by (simp add: handleInputChange_def)
next
  case DragOver
  with assms show ?thesis by (simp add: handleDragOver_def)
next
  case DragLeave
  with assms show ?thesis by (simp add: handleDragLeave_def)
next
  case (Drop fs)
  from assms have
    "distinct (map id' (files (s\<lparr>isDragOver := False\<rparr>)))"
    "id' ` set (files (s\<lparr>isDragOver := False\<rparr>)) \<subseteq>
       randomId env ` {..< randomCalls (s\<lparr>isDragOver := False\<rparr>)}"
    by simp_all
  from handleFileSelect_keeps_ids [OF assms(1) this] Drop show ?thesis
    by (simp add: handleDrop_def)
next
  case (RemoveClick x)
  with assms show ?thesis
    by (auto simp: distinct_map_filter)
next
  case ClearAllClick
  then show ?thesis by (simp add: clearAll_def)
qed

lemma run_keeps_ids:
  assumes "inj (randomId env)"
  shows "distinct (map id' (files s)) \<Longrightarrow>
         id' ` set (files s) \<subseteq> randomId env ` {..< randomCalls s} \<Longrightarrow>
         distinct (map id' (files (run env es s)))"
proof (induction es arbitrary: s)
  case Nil
  then show ?case by simp
next
  case (Cons e es)
  from fire_keeps_ids [OF assms Cons.prems] show ?case
    by (simp add: Cons.IH)
qed

text \<open>
  Claim C3 as stated fails: when \<^verbatim>\<open>Math.random\<close> yields the same value twice, one
  selection of two files gives two records with the same id. Nothing in
  \<^verbatim>\<open>handleFileSelect\<close> compares a new id with the ids in use.
\<close>

theorem generateId_collision:
  "\<not> distinct (map id' (files (run stuckBrowser [InputChange (Some [pngFile, pngFile])] initialState)))"
  by (simp add: handleInputChange_def dupState_eval [unfolded dupState_def])

text \<open>
  Claim C3, amended: when the id generator never yields the same id twice, the ids in
  the list are pairwise distinct after every sequence of events (selections by picker
  or drop, removals, clears, drag-over and drag-leave), starting from the empty list.
\<close>

theorem run_ids_distinct:
  "inj (randomId env) \<Longrightarrow> distinct (map id' (files (run env es initialState)))"
  by (rule run_keeps_ids) (simp_all add: initialState_def)

theorem run_ids_distinct_witness:
  "inj (randomId demoBrowser) \<and>
   distinct (map id' (files
     (run demoBrowser
        [InputChange (Some [pngFile, pdfFile]), RemoveClick ''a'', Drop (Some [pngFile]),
         ClearAllClick, InputChange (Some [pdfFile, pdfFile])]
        initialState)))"
  using demoBrowser_inj run_ids_distinct [OF demoBrowser_inj] by (rule conjI)

end
